theory Spec2Isabelle
  imports Main "HOL-Library.Stream" "HOL-Library.Word"
begin

section \<open>Numbers and arrays of the source language\<close>

text \<open>
  The service (\<^verbatim>\<open>lweService\<close>, the second half of \<^verbatim>\<open>src/App.tsx\<close>) computes with
  JavaScript numbers. Every value it produces from integer inputs is an integer or
  \<^verbatim>\<open>NaN\<close> (reading an array past its end gives \<^verbatim>\<open>undefined\<close>, which arithmetic turns
  into \<^verbatim>\<open>NaN\<close>). A number is therefore an integer or \<open>NaN\<close>; integers are exact, as
  doubles are below \<open>2^53\<close> (with the reference parameters no intermediate value
  exceeds \<open>256 * 3328 * 3328\<close>).
\<close>

datatype number = Num int | NaN

type_synonym Vector = "number list"
type_synonym Matrix = "number list list"

datatype exn = TypeError | SyntaxError | InvalidCharacterError | Error "nat list"

fun num_add :: "number \<Rightarrow> number \<Rightarrow> number" where
  "num_add (Num a) (Num b) = Num (a + b)"
| "num_add _ _ = NaN"

fun num_sub :: "number \<Rightarrow> number \<Rightarrow> number" where
  "num_sub (Num a) (Num b) = Num (a - b)"
| "num_sub _ _ = NaN"

fun num_mul :: "number \<Rightarrow> number \<Rightarrow> number" where
  "num_mul (Num a) (Num b) = Num (a * b)"
| "num_mul _ _ = NaN"

text \<open>The operator \<^verbatim>\<open>%\<close>: the remainder takes the sign of the dividend, and a zero
  divisor gives \<^verbatim>\<open>NaN\<close>.\<close>

definition trunc_rem :: "int \<Rightarrow> int \<Rightarrow> int" where
  "trunc_rem a b = sgn a * (\<bar>a\<bar> mod \<bar>b\<bar>)"

fun num_rem :: "number \<Rightarrow> int \<Rightarrow> number" where
  "num_rem (Num a) q = (if q = 0 then NaN else Num (trunc_rem a q))"
| "num_rem NaN q = NaN"

text \<open>Comparisons with \<^verbatim>\<open>NaN\<close> are false.\<close>

fun num_less :: "number \<Rightarrow> number \<Rightarrow> bool" where
  "num_less (Num a) (Num b) = (a < b)"
| "num_less _ _ = False"

fun num_abs :: "number \<Rightarrow> number" where
  "num_abs (Num a) = Num \<bar>a\<bar>"
| "num_abs NaN = NaN"

text \<open>\<^verbatim>\<open>xs[i]\<close> inside an arithmetic expression: \<^verbatim>\<open>undefined\<close> past the end, hence
  \<^verbatim>\<open>NaN\<close>.\<close>

definition at :: "Vector \<Rightarrow> nat \<Rightarrow> number" where
  "at xs i = (if i < length xs then xs ! i else NaN)"

section \<open>Constants\<close>

definition Q :: int where "Q = 3329"
definition N :: nat where "N = 128"
definition M :: nat where "M = 256"
definition ERROR_RANGE :: int where "ERROR_RANGE = 3"

section \<open>Modular linear algebra\<close>

text \<open>\<^verbatim>\<open>((sum % q) + q) % q\<close>\<close>

definition positive_modulo :: "number \<Rightarrow> int \<Rightarrow> number" where
  "positive_modulo raw q = num_rem (num_add (num_rem raw q) (Num q)) q"

text \<open>\<^verbatim>\<open>let sum = 0; for (let k = 0; k < n; k++) sum += f(k);\<close>\<close>

definition sum_loop :: "nat \<Rightarrow> (nat \<Rightarrow> number) \<Rightarrow> number" where
  "sum_loop n f = fold (\<lambda>k acc. num_add acc (f k)) [0..<n] (Num 0)"

text \<open>\<^verbatim>\<open>A[0].length\<close> throws a \<^verbatim>\<open>TypeError\<close> when \<open>A\<close> has no row.\<close>

definition matVecMul :: "Matrix \<Rightarrow> Vector \<Rightarrow> int \<Rightarrow> exn + Vector" where
  "matVecMul A s q =
     (case A of
        [] \<Rightarrow> Inl TypeError
      | row0 # _ \<Rightarrow>
          let m = length A; n = length row0 in
          Inr (map (\<lambda>i. positive_modulo
                           (sum_loop n (\<lambda>j. num_mul (at (A ! i) j) (at s j))) q)
                   [0..<m]))"

definition vecDot :: "Vector \<Rightarrow> Vector \<Rightarrow> int \<Rightarrow> number" where
  "vecDot v1 v2 q =
     positive_modulo (sum_loop (length v1) (\<lambda>i. num_mul (v1 ! i) (at v2 i))) q"

definition matTransVecMul :: "Matrix \<Rightarrow> Vector \<Rightarrow> int \<Rightarrow> exn + Vector" where
  "matTransVecMul A r q =
     (case A of
        [] \<Rightarrow> Inl TypeError
      | row0 # _ \<Rightarrow>
          let m = length A; n = length row0 in
          Inr (map (\<lambda>j. positive_modulo
                           (sum_loop m (\<lambda>i. num_mul (at (A ! i) j) (at r i))) q)
                   [0..<n]))"

definition vecAdd :: "Vector \<Rightarrow> Vector \<Rightarrow> int \<Rightarrow> Vector" where
  "vecAdd v1 v2 q =
     map (\<lambda>i. positive_modulo (num_add (v1 ! i) (at v2 i)) q) [0..<length v1]"

section \<open>The random source\<close>

text \<open>
  \<^verbatim>\<open>window.crypto.getRandomValues\<close> fills a one-element \<^verbatim>\<open>Uint32Array\<close>. The values
  it will deliver are an input of the model: a stream of 32-bit words, read one word
  per call and passed on.
\<close>

type_synonym rng = "32 word stream"

definition getRandomInt :: "int \<Rightarrow> rng \<Rightarrow> number \<times> rng" where
  "getRandomInt mx g = (num_rem (Num (uint (shd g))) mx, stl g)"

definition getRandomError :: "int \<Rightarrow> rng \<Rightarrow> number \<times> rng" where
  "getRandomError rg g =
     (let (val, g') = getRandomInt (rg * 2 + 1) g in (num_sub val (Num rg), g'))"

text \<open>\<^verbatim>\<open>const xs = []; for (let i = 0; i < n; i++) xs.push(draw());\<close>\<close>

fun push_loop :: "nat \<Rightarrow> (rng \<Rightarrow> 'a \<times> rng) \<Rightarrow> rng \<Rightarrow> 'a list \<times> rng" where
  "push_loop 0 draw g = ([], g)"
| "push_loop (Suc n) draw g =
     (let (x, g1) = draw g; (xs, g2) = push_loop n draw g1 in (x # xs, g2))"

definition generateMatrix :: "nat \<Rightarrow> nat \<Rightarrow> int \<Rightarrow> rng \<Rightarrow> Matrix \<times> rng" where
  "generateMatrix rows cols q = push_loop rows (push_loop cols (getRandomInt q))"

section \<open>Key generation\<close>

record PublicKey =
  pk_A :: Matrix
  pk_b :: Vector

record KeyPair =
  keys_pk :: PublicKey
  keys_sk :: Vector

text \<open>The body of the timer callback of \<^verbatim>\<open>generateKeys\<close>; the delay is not modelled.
  The error vector \<open>e\<close> is a local of the callback, and \<open>KeyPair\<close> has no field for it.\<close>

definition generateKeys :: "rng \<Rightarrow> exn + KeyPair \<times> rng" where
  "generateKeys g =
     (let (s, g1) = push_loop N (getRandomError ERROR_RANGE) g;
          (A, g2) = generateMatrix M N Q g1;
          (e, g3) = push_loop M (getRandomError ERROR_RANGE) g2
      in case matVecMul A s Q of
           Inl x \<Rightarrow> Inl x
         | Inr As \<Rightarrow>
             Inr (\<lparr>keys_pk = \<lparr>pk_A = A, pk_b = vecAdd As e Q\<rparr>, keys_sk = s\<rparr>, g3))"

section \<open>Text encoding\<close>

text \<open>
  A plaintext is a JavaScript string, given here by its code points; a lone surrogate
  code unit is a code point in \<open>0xD800..0xDFFF\<close>. \<^verbatim>\<open>TextEncoder.encode\<close> (Encoding
  Standard, UTF-8 encoder) first replaces lone surrogates by U+FFFD. Code points are at
  most \<open>0x10FFFF\<close>. Bytes are naturals below 256.
\<close>

definition is_surrogate :: "nat \<Rightarrow> bool" where
  "is_surrogate c = (0xD800 \<le> c \<and> c \<le> 0xDFFF)"

definition scalar_value :: "nat \<Rightarrow> bool" where
  "scalar_value c = (c \<le> 0x10FFFF \<and> \<not> is_surrogate c)"

definition encode_code_point :: "nat \<Rightarrow> nat list" where
  "encode_code_point c =
     (if c < 0x80 then [c]
      else if c < 0x800 then [0xC0 + c div 64, 0x80 + c mod 64]
      else if c < 0x10000 then [0xE0 + c div 4096, 0x80 + c div 64 mod 64, 0x80 + c mod 64]
      else [0xF0 + c div 262144, 0x80 + c div 4096 mod 64, 0x80 + c div 64 mod 64,
            0x80 + c mod 64])"

definition TextEncoder_encode :: "nat list \<Rightarrow> nat list" where
  "TextEncoder_encode str =
     concat (map (\<lambda>c. encode_code_point (if is_surrogate c then 0xFFFD else c)) str)"

text \<open>\<^verbatim>\<open>for (let i = 7; i >= 0; i--) bits.push((byte >> i) & 1);\<close>\<close>

definition byte_bits :: "nat \<Rightarrow> int list" where
  "byte_bits byte = map (\<lambda>i. int (byte div 2 ^ i mod 2)) [7, 6, 5, 4, 3, 2, 1, 0]"

definition bytes_to_bits :: "nat list \<Rightarrow> int list" where
  "bytes_to_bits bytes = concat (map byte_bits bytes)"

section \<open>The ciphertext container and its serialisation\<close>

record EncryptedBlock =
  blk_u :: Vector
  blk_v :: number

record Meta =
  timestamp :: int
  algorithm :: string

record SerializedCiphertext =
  blocks :: "EncryptedBlock list"
  meta :: Meta

text \<open>\<^verbatim>\<open>JSON.stringify\<close> on a container: properties in insertion order, no white
  space, integers in decimal, \<^verbatim>\<open>NaN\<close> as \<^verbatim>\<open>null\<close>.\<close>

fun nat_digits :: "nat \<Rightarrow> string" where
  "nat_digits n =
     (if n < 10 then [char_of (48 + n)]
      else nat_digits (n div 10) @ [char_of (48 + n mod 10)])"

definition stringify_number :: "number \<Rightarrow> string" where
  "stringify_number x =
     (case x of
        NaN \<Rightarrow> ''null''
      | Num i \<Rightarrow> if i < 0 then CHR ''-'' # nat_digits (nat (- i)) else nat_digits (nat i))"

fun join :: "string \<Rightarrow> string list \<Rightarrow> string" where
  "join sep [] = []"
| "join sep [x] = x"
| "join sep (x # y # ys) = x @ sep @ join sep (y # ys)"

definition stringify_vector :: "Vector \<Rightarrow> string" where
  "stringify_vector xs = ''['' @ join '','' (map stringify_number xs) @ '']''"

definition stringify_block :: "EncryptedBlock \<Rightarrow> string" where
  \<open>stringify_block blk =
     ''{"u":'' @ stringify_vector (blk_u blk) @ '',"v":'' @ stringify_number (blk_v blk) @ ''}''\<close>

definition JSON_stringify :: "SerializedCiphertext \<Rightarrow> string" where
  \<open>JSON_stringify c =
     ''{"blocks":['' @ join '','' (map stringify_block (blocks c)) @
     ''],"meta":{"timestamp":'' @ stringify_number (Num (timestamp (meta c))) @
     '',"algorithm":"'' @ algorithm (meta c) @ ''"}}''\<close>

subsection \<open>Base64\<close>

text \<open>\<^verbatim>\<open>btoa\<close> on a string whose code units are all below 256 (a \<open>string\<close>; the
  serialised container is ASCII), and \<^verbatim>\<open>atob\<close> (forgiving-base64 decode of the
  Infra Standard) on any sequence of code units.\<close>

definition b64_alphabet :: string where
  "b64_alphabet = ''ABCDEFGHIJKLMNOPQRSTUVWXYZabcdefghijklmnopqrstuvwxyz0123456789+/''"

definition b64_char :: "nat \<Rightarrow> char" where
  "b64_char n = b64_alphabet ! n"

fun btoa :: "string \<Rightarrow> string" where
  "btoa [] = []"
| "btoa [a] =
     (let x = of_char a :: nat in
      [b64_char (x div 4), b64_char (x mod 4 * 16), CHR ''='', CHR ''=''])"
| "btoa [a, b] =
     (let x = of_char a :: nat; y = of_char b :: nat in
      [b64_char (x div 4), b64_char (x mod 4 * 16 + y div 16), b64_char (y mod 16 * 4),
       CHR ''=''])"
| "btoa (a # b # c # rest) =
     (let x = of_char a :: nat; y = of_char b :: nat; z = of_char c :: nat in
      [b64_char (x div 4), b64_char (x mod 4 * 16 + y div 16),
       b64_char (y mod 16 * 4 + z div 64), b64_char (z mod 64)]) @ btoa rest"

definition b64_value :: "nat \<Rightarrow> nat option" where
  "b64_value c =
     (if 65 \<le> c \<and> c \<le> 90 then Some (c - 65)
      else if 97 \<le> c \<and> c \<le> 122 then Some (c - 71)
      else if 48 \<le> c \<and> c \<le> 57 then Some (c + 4)
      else if c = 43 then Some 62
      else if c = 47 then Some 63
      else None)"

definition ascii_whitespace :: "nat \<Rightarrow> bool" where
  "ascii_whitespace c = (c = 9 \<or> c = 10 \<or> c = 12 \<or> c = 13 \<or> c = 32)"

definition strip_padding :: "nat list \<Rightarrow> nat list" where
  "strip_padding cs =
     (if length cs mod 4 = 0 \<and> cs \<noteq> [] \<and> last cs = 61 then
        (if butlast cs \<noteq> [] \<and> last (butlast cs) = 61 then butlast (butlast cs)
         else butlast cs)
      else cs)"

fun decode_sextets :: "nat list \<Rightarrow> string" where
  "decode_sextets (a # b # c # d # rest) =
     [char_of (a * 4 + b div 16), char_of (b mod 16 * 16 + c div 4),
      char_of (c mod 4 * 64 + d)] @ decode_sextets rest"
| "decode_sextets [a, b, c] = [char_of (a * 4 + b div 16), char_of (b mod 16 * 16 + c div 4)]"
| "decode_sextets [a, b] = [char_of (a * 4 + b div 16)]"
| "decode_sextets _ = []"

definition atob :: "nat list \<Rightarrow> string option" where
  "atob str =
     (let cs = strip_padding (filter (\<lambda>c. \<not> ascii_whitespace c) str) in
      if length cs mod 4 = 1 then None
      else map_option decode_sextets (those (map b64_value cs)))"

section \<open>Encryption\<close>

record EncryptionStat =
  bitIndex :: nat
  originalBit :: int
  vVal :: number
  vPrime :: number
  encodedVal :: int

record EncryptResult =
  ciphertext :: "nat list"
  stats :: "EncryptionStat list"

text \<open>The body of \<^verbatim>\<open>bits.forEach((bit, index) => ...)\<close>, from the bit at \<open>index\<close> on.
  \<^verbatim>\<open>matTransVecMul\<close> may throw, which ends the loop and the call.\<close>

fun encrypt_bits ::
  "PublicKey \<Rightarrow> nat \<Rightarrow> int list \<Rightarrow> rng \<Rightarrow> exn + EncryptedBlock list \<times> EncryptionStat list \<times> rng"
where
  "encrypt_bits pk index [] g = Inr ([], [], g)"
| "encrypt_bits pk index (mbit # mbits) g =
     (let (r, g1) = push_loop M (getRandomInt 2) g in
      case matTransVecMul (pk_A pk) r Q of
        Inl x \<Rightarrow> Inl x
      | Inr u \<Rightarrow>
          let v = vecDot (pk_b pk) r Q;
              messageEncoding = mbit * (Q div 2);
              v' = num_rem (num_add v (Num messageEncoding)) Q;
              block = \<lparr>blk_u = u, blk_v = v'\<rparr>;
              stat = (if index < 20
                      then [\<lparr>bitIndex = index, originalBit = mbit, vVal = v, vPrime = v',
                             encodedVal = messageEncoding\<rparr>]
                      else [])
          in case encrypt_bits pk (index + 1) mbits g1 of
               Inl x \<Rightarrow> Inl x
             | Inr (bs, sts, g2) \<Rightarrow> Inr (block # bs, stat @ sts, g2))"

text \<open>\<open>now\<close> is the value of \<^verbatim>\<open>Date.now()\<close>. The ciphertext is returned as its code
  units.\<close>

definition encryptText ::
  "PublicKey \<Rightarrow> nat list \<Rightarrow> int \<Rightarrow> rng \<Rightarrow> exn + EncryptResult \<times> rng"
where
  "encryptText pk plaintext now g =
     (let bytes = TextEncoder_encode plaintext;
          mbits = bytes_to_bits bytes
      in case encrypt_bits pk 0 mbits g of
           Inl x \<Rightarrow> Inl x
         | Inr (bs, sts, g') \<Rightarrow>
             let container = \<lparr>blocks = bs, meta = \<lparr>timestamp = now, algorithm = ''LWE-Regev''\<rparr>\<rparr>;
                 jsonStr = JSON_stringify container;
                 base64Str = btoa jsonStr
             in Inr (\<lparr>ciphertext = map of_char base64Str, stats = sts\<rparr>, g'))"

section \<open>Parsing the container\<close>

text \<open>
  \<^verbatim>\<open>JSON.parse\<close> (ECMA-404 grammar) on the string \<^verbatim>\<open>atob\<close> returned. Strings are
  kept as code units. A number written with a fraction or an exponent is kept as its
  text (\<open>JOther\<close>): the model does not compute with it.
\<close>

datatype json =
  JNull | JBool bool | JNum int | JOther string | JStr "nat list" | JArr "json list"
  | JObj "(nat list \<times> json) list"

definition json_ws :: "char \<Rightarrow> bool" where
  "json_ws c = (c = CHR '' '' \<or> c = CHR 0x09 \<or> c = CHR 0x0A \<or> c = CHR 0x0D)"

definition skip_ws :: "string \<Rightarrow> string" where
  "skip_ws cs = dropWhile json_ws cs"

definition is_digit :: "char \<Rightarrow> bool" where
  "is_digit c = (48 \<le> (of_char c :: nat) \<and> (of_char c :: nat) \<le> 57)"

definition digits_value :: "string \<Rightarrow> nat" where
  "digits_value ds = foldl (\<lambda>acc c. acc * 10 + (of_char c - 48)) 0 ds"

definition parse_frac :: "string \<Rightarrow> (string \<times> string) option" where
  "parse_frac cs =
     (case cs of
        c # r \<Rightarrow>
          if c = CHR ''.'' then
            (if takeWhile is_digit r = [] then None
             else Some (c # takeWhile is_digit r, dropWhile is_digit r))
          else Some ([], cs)
      | [] \<Rightarrow> Some ([], cs))"

definition parse_exp :: "string \<Rightarrow> (string \<times> string) option" where
  "parse_exp cs =
     (case cs of
        c # r \<Rightarrow>
          if c = CHR ''e'' \<or> c = CHR ''E'' then
            (let sg = (case r of s # _ \<Rightarrow> if s = CHR ''+'' \<or> s = CHR ''-'' then [s] else []
                       | [] \<Rightarrow> []);
                 r' = drop (length sg) r
             in if takeWhile is_digit r' = [] then None
                else Some (c # sg @ takeWhile is_digit r', dropWhile is_digit r'))
          else Some ([], cs)
      | [] \<Rightarrow> Some ([], cs))"

definition parse_number :: "string \<Rightarrow> (json \<times> string) option" where
  "parse_number cs =
     (let neg = (cs \<noteq> [] \<and> hd cs = CHR ''-'');
          cs1 = (if neg then tl cs else cs)
      in case cs1 of
           [] \<Rightarrow> None
         | c # r \<Rightarrow>
             if \<not> is_digit c then None
             else
               let ds = (if c = CHR ''0'' then [c] else takeWhile is_digit cs1);
                   r1 = drop (length ds) cs1
               in case parse_frac r1 of
                    None \<Rightarrow> None
                  | Some (fr, r2) \<Rightarrow>
                      (case parse_exp r2 of
                         None \<Rightarrow> None
                       | Some (ex, r3) \<Rightarrow>
                           if fr = [] \<and> ex = [] then
                             Some (JNum (if neg then - int (digits_value ds)
                                         else int (digits_value ds)), r3)
                           else Some (JOther ((if neg then ''-'' else []) @ ds @ fr @ ex), r3)))"

definition hex_value :: "char \<Rightarrow> nat option" where
  "hex_value c =
     (let n = of_char c :: nat in
      if 48 \<le> n \<and> n \<le> 57 then Some (n - 48)
      else if 65 \<le> n \<and> n \<le> 70 then Some (n - 55)
      else if 97 \<le> n \<and> n \<le> 102 then Some (n - 87)
      else None)"

definition hex4 :: "char \<Rightarrow> char \<Rightarrow> char \<Rightarrow> char \<Rightarrow> nat option" where
  "hex4 a b c d =
     (case (hex_value a, hex_value b, hex_value c, hex_value d) of
        (Some w, Some x, Some y, Some z) \<Rightarrow> Some (((w * 16 + x) * 16 + y) * 16 + z)
      | _ \<Rightarrow> None)"

definition escape :: "char \<Rightarrow> nat option" where
  "escape c =
     (if c = CHR 0x22 then Some 0x22
      else if c = CHR 0x5C then Some 0x5C
      else if c = CHR ''/'' then Some 0x2F
      else if c = CHR ''b'' then Some 8
      else if c = CHR ''f'' then Some 12
      else if c = CHR ''n'' then Some 10
      else if c = CHR ''r'' then Some 13
      else if c = CHR ''t'' then Some 9
      else None)"

definition cons_fst :: "'a \<Rightarrow> ('a list \<times> 'b) option \<Rightarrow> ('a list \<times> 'b) option" where
  "cons_fst x r = map_option (\<lambda>(xs, rest). (x # xs, rest)) r"

text \<open>The characters of a string after its opening quote, up to the closing quote.\<close>

fun string_body :: "string \<Rightarrow> (nat list \<times> string) option" where
  "string_body [] = None"
| "string_body (c # cs) =
     (if c = CHR 0x22 then Some ([], cs)
      else if c = CHR 0x5C then
        (case cs of
           [] \<Rightarrow> None
         | e # r \<Rightarrow>
             if e = CHR ''u'' then
               (case r of
                  h1 # h2 # h3 # h4 # r' \<Rightarrow>
                    (case hex4 h1 h2 h3 h4 of
                       None \<Rightarrow> None
                     | Some n \<Rightarrow> cons_fst n (string_body r'))
                | _ \<Rightarrow> None)
             else
               (case escape e of
                  None \<Rightarrow> None
                | Some n \<Rightarrow> cons_fst n (string_body r)))
      else if (of_char c :: nat) < 0x20 then None
      else cons_fst (of_char c) (string_body cs))"

definition literal :: "string \<Rightarrow> json \<Rightarrow> string \<Rightarrow> (json \<times> string) option" where
  "literal word val cs =
     (if take (length word) cs = word then Some (val, drop (length word) cs) else None)"

text \<open>The recursive descent, with fuel: every call either consumes a character before
  it recurses or is the callee of one that did, so twice the length of the text is
  enough (lemma \<open>JSON_parse\<close> takes that much).\<close>

fun parse_value :: "nat \<Rightarrow> string \<Rightarrow> (json \<times> string) option"
  and parse_elements :: "nat \<Rightarrow> string \<Rightarrow> (json list \<times> string) option"
  and parse_members :: "nat \<Rightarrow> string \<Rightarrow> ((nat list \<times> json) list \<times> string) option"
where
  "parse_value 0 cs = None"
| "parse_value (Suc n) cs =
     (case skip_ws cs of
        [] \<Rightarrow> None
      | c # rest \<Rightarrow>
          if c = CHR ''{'' then
            (case skip_ws rest of
               [] \<Rightarrow> None
             | d # rest' \<Rightarrow>
                 if d = CHR ''}'' then Some (JObj [], rest')
                 else map_option (\<lambda>(ms, r). (JObj ms, r)) (parse_members n rest))
          else if c = CHR ''['' then
            (case skip_ws rest of
               [] \<Rightarrow> None
             | d # rest' \<Rightarrow>
                 if d = CHR '']'' then Some (JArr [], rest')
                 else map_option (\<lambda>(vs, r). (JArr vs, r)) (parse_elements n rest))
          else if c = CHR 0x22 then map_option (\<lambda>(s, r). (JStr s, r)) (string_body rest)
          else if c = CHR ''t'' then literal ''true'' (JBool True) (c # rest)
          else if c = CHR ''f'' then literal ''false'' (JBool False) (c # rest)
          else if c = CHR ''n'' then literal ''null'' JNull (c # rest)
          else parse_number (c # rest))"
| "parse_elements 0 cs = None"
| "parse_elements (Suc n) cs =
     (case parse_value n cs of
        None \<Rightarrow> None
      | Some (x, r) \<Rightarrow>
          (case skip_ws r of
             [] \<Rightarrow> None
           | d # r' \<Rightarrow>
               if d = CHR '','' then cons_fst x (parse_elements n r')
               else if d = CHR '']'' then Some ([x], r')
               else None))"
| "parse_members 0 cs = None"
| "parse_members (Suc n) cs =
     (case skip_ws cs of
        [] \<Rightarrow> None
      | q # r \<Rightarrow>
          if q \<noteq> CHR 0x22 then None
          else
            (case string_body r of
               None \<Rightarrow> None
             | Some (k, r1) \<Rightarrow>
                 (case skip_ws r1 of
                    [] \<Rightarrow> None
                  | colon # r2 \<Rightarrow>
                      if colon \<noteq> CHR '':'' then None
                      else
                        (case parse_value n r2 of
                           None \<Rightarrow> None
                         | Some (x, r3) \<Rightarrow>
                             (case skip_ws r3 of
                                [] \<Rightarrow> None
                              | d # r4 \<Rightarrow>
                                  if d = CHR '','' then cons_fst (k, x) (parse_members n r4)
                                  else if d = CHR ''}'' then Some ([(k, x)], r4)
                                  else None)))))"

definition JSON_parse :: "string \<Rightarrow> json option" where
  "JSON_parse text =
     (case parse_value (2 * length text + 2) text of
        None \<Rightarrow> None
      | Some (x, r) \<Rightarrow> if skip_ws r = [] then Some x else None)"

section \<open>Decryption\<close>

text \<open>
  What a step of the decryption does: it yields a value, it throws, or the parsed
  container makes it convert a string, an array, an object or a non-integer number to
  a number; the model does not follow the program there (\<open>Unmodelled\<close>) and no
  theorem below speaks about such inputs.
\<close>

datatype 'a outcome = Ok 'a | Throws exn | Unmodelled

text \<open>\<^verbatim>\<open>x.name\<close> and \<^verbatim>\<open>x[i]\<close> on a parsed value other than \<^verbatim>\<open>null\<close>: the member of
  an object (the last one of that name), \<^verbatim>\<open>undefined\<close> (\<open>None\<close>) otherwise. None of
  the names read (\<^verbatim>\<open>blocks\<close>, \<^verbatim>\<open>u\<close>, \<^verbatim>\<open>v\<close>, an index) is a property of a
  prototype.\<close>

definition get_property :: "string \<Rightarrow> json \<Rightarrow> json option" where
  "get_property name x =
     (case x of JObj ms \<Rightarrow> map_of (rev ms) (map of_char name) | _ \<Rightarrow> None)"

text \<open>The conversion to a number that \<^verbatim>\<open>*\<close> and \<^verbatim>\<open>-\<close> apply to an operand.\<close>

definition ToNumber :: "json option \<Rightarrow> number outcome" where
  "ToNumber x =
     (case x of
        None \<Rightarrow> Ok NaN
      | Some JNull \<Rightarrow> Ok (Num 0)
      | Some (JBool b) \<Rightarrow> Ok (Num (if b then 1 else 0))
      | Some (JNum n) \<Rightarrow> Ok (Num n)
      | Some _ \<Rightarrow> Unmodelled)"

fun collect :: "'a outcome list \<Rightarrow> 'a list outcome" where
  "collect [] = Ok []"
| "collect (x # xs) =
     (case x of
        Ok y \<Rightarrow> (case collect xs of Ok ys \<Rightarrow> Ok (y # ys) | Throws e \<Rightarrow> Throws e
                  | Unmodelled \<Rightarrow> Unmodelled)
      | Throws e \<Rightarrow> Throws e
      | Unmodelled \<Rightarrow> Unmodelled)"

text \<open>
  \<^verbatim>\<open>vecDot(sk, u, Q)\<close> reads \<^verbatim>\<open>u[i]\<close> for \<open>i < sk.length\<close> only, each as an operand of
  \<^verbatim>\<open>*\<close>. \<open>operand_vector n u\<close> is the vector of these operands: reading an element of
  \<^verbatim>\<open>undefined\<close> or \<^verbatim>\<open>null\<close> throws, an array gives its first \<open>n\<close> elements, an object
  its members named by the indices, a number or a boolean has no elements.
\<close>

definition operand_vector :: "nat \<Rightarrow> json option \<Rightarrow> Vector outcome" where
  "operand_vector n x =
     (if n = 0 then Ok []
      else case x of
             None \<Rightarrow> Throws TypeError
           | Some JNull \<Rightarrow> Throws TypeError
           | Some (JArr xs) \<Rightarrow> collect (map (\<lambda>y. ToNumber (Some y)) (take n xs))
           | Some (JObj ms) \<Rightarrow>
               collect (map (\<lambda>i. ToNumber (get_property (nat_digits i) (JObj ms))) [0..<n])
           | Some (JStr s) \<Rightarrow> if s = [] then Ok [] else Unmodelled
           | Some _ \<Rightarrow> Ok [])"

text \<open>\<^verbatim>\<open>let d = (v - sTu) % Q; if (d < 0) d += Q;\<close>\<close>

definition difference :: "Vector \<Rightarrow> Vector \<Rightarrow> number \<Rightarrow> number" where
  "difference sk u v =
     (let sTu = vecDot sk u Q;
          d = num_rem (num_sub v sTu) Q
      in if num_less d (Num 0) then num_add d (Num Q) else d)"

text \<open>\<^verbatim>\<open>if (d > Q - quarterQ) d -= Q;\<close>\<close>

definition center :: "number \<Rightarrow> number" where
  "center d = (let quarterQ = Q div 4 in
               if num_less (Num (Q - quarterQ)) d then num_sub d (Num Q) else d)"

text \<open>\<^verbatim>\<open>if (Math.abs(d - halfQ) < quarterQ) push(1) else push(0)\<close>\<close>

definition decision :: "number \<Rightarrow> int" where
  "decision d = (let halfQ = Q div 2; quarterQ = Q div 4 in
                 if num_less (num_abs (num_sub d (Num halfQ))) (Num quarterQ) then 1 else 0)"

definition decrypt_bit :: "Vector \<Rightarrow> Vector \<Rightarrow> number \<Rightarrow> int" where
  "decrypt_bit sk u v = decision (center (difference sk u v))"

text \<open>The body of \<^verbatim>\<open>blocks.forEach(block => ...)\<close>: destructuring \<^verbatim>\<open>null\<close> throws.\<close>

definition decrypt_block :: "Vector \<Rightarrow> json \<Rightarrow> int outcome" where
  "decrypt_block sk block =
     (if block = JNull then Throws TypeError
      else
        let u = get_property ''u'' block; v = get_property ''v'' block in
        case operand_vector (length sk) u of
          Throws e \<Rightarrow> Throws e
        | Unmodelled \<Rightarrow> Unmodelled
        | Ok uvec \<Rightarrow>
            (case ToNumber v of
               Throws e \<Rightarrow> Throws e
             | Unmodelled \<Rightarrow> Unmodelled
             | Ok vnum \<Rightarrow> Ok (decrypt_bit sk uvec vnum)))"

definition decrypt_blocks :: "Vector \<Rightarrow> json list \<Rightarrow> int list outcome" where
  "decrypt_blocks sk bs = collect (map (decrypt_block sk) bs)"

text \<open>
  \<^verbatim>\<open>for (let i = 0; i < decryptedBits.length; i += 8)\<close>: one byte for every group of
  up to eight bits; \<^verbatim>\<open>byteVal = (byteVal << 1) | bit\<close> runs once for every bit the group
  has.
\<close>

fun bits_to_bytes :: "int list \<Rightarrow> int list" where
  "bits_to_bytes [] = []"
| "bits_to_bytes (b # bs) =
     fold (\<lambda>x byteVal. or (push_bit 1 byteVal) x) (take 8 (b # bs)) 0
     # bits_to_bytes (drop 8 (b # bs))"

definition Uint8Array :: "int list \<Rightarrow> nat list" where
  "Uint8Array xs = map (\<lambda>x. nat (x mod 256)) xs"

subsection \<open>\<^verbatim>\<open>new TextDecoder().decode\<close>\<close>

text \<open>
  The UTF-8 decoder of the Encoding Standard with the defaults of the constructor:
  errors are replaced by U+FFFD (\<^verbatim>\<open>fatal\<close> is false), and a leading U+FEFF is removed
  (\<^verbatim>\<open>ignoreBOM\<close> is false). The decoder is total: it never throws.
\<close>

record utf8_state =
  code_point :: nat
  bytes_seen :: nat
  bytes_needed :: nat
  lower_boundary :: nat
  upper_boundary :: nat

definition initial_state :: utf8_state where
  "initial_state =
     \<lparr>code_point = 0, bytes_seen = 0, bytes_needed = 0, lower_boundary = 0x80,
      upper_boundary = 0xBF\<rparr>"

text \<open>A byte read when no byte is needed: a code point (U+FFFD for an error) or the
  state that awaits the continuation bytes.\<close>

definition lead_byte :: "nat \<Rightarrow> nat + utf8_state" where
  "lead_byte b =
     (if b \<le> 0x7F then Inl b
      else if 0xC2 \<le> b \<and> b \<le> 0xDF then
        Inr (initial_state\<lparr>bytes_needed := 1, code_point := b mod 32\<rparr>)
      else if 0xE0 \<le> b \<and> b \<le> 0xEF then
        Inr (initial_state\<lparr>bytes_needed := 2, code_point := b mod 16,
               lower_boundary := (if b = 0xE0 then 0xA0 else 0x80),
               upper_boundary := (if b = 0xED then 0x9F else 0xBF)\<rparr>)
      else if 0xF0 \<le> b \<and> b \<le> 0xF4 then
        Inr (initial_state\<lparr>bytes_needed := 3, code_point := b mod 8,
               lower_boundary := (if b = 0xF0 then 0x90 else 0x80),
               upper_boundary := (if b = 0xF4 then 0x8F else 0xBF)\<rparr>)
      else Inl 0xFFFD)"

fun utf8_decode :: "utf8_state \<Rightarrow> nat list \<Rightarrow> nat list" where
  "utf8_decode st [] = (if bytes_needed st \<noteq> 0 then [0xFFFD] else [])"
| "utf8_decode st (b # bs) =
     (if bytes_needed st = 0 then
        (case lead_byte b of
           Inl c \<Rightarrow> c # utf8_decode initial_state bs
         | Inr st' \<Rightarrow> utf8_decode st' bs)
      else if b < lower_boundary st \<or> upper_boundary st < b then
        0xFFFD #
        (case lead_byte b of
           Inl c \<Rightarrow> c # utf8_decode initial_state bs
         | Inr st' \<Rightarrow> utf8_decode st' bs)
      else
        let c = code_point st * 64 + b mod 64 in
        if bytes_seen st + 1 \<noteq> bytes_needed st then
          utf8_decode (st\<lparr>code_point := c, bytes_seen := bytes_seen st + 1,
                         lower_boundary := 0x80, upper_boundary := 0xBF\<rparr>) bs
        else c # utf8_decode initial_state bs)"

definition TextDecoder_decode :: "nat list \<Rightarrow> nat list" where
  "TextDecoder_decode bytes =
     (case utf8_decode initial_state bytes of
        [] \<Rightarrow> []
      | c # cs \<Rightarrow> if c = 0xFEFF then cs else c # cs)"

subsection \<open>\<^verbatim>\<open>decryptText\<close>\<close>

text \<open>The message of the \<^verbatim>\<open>Error\<close> the \<^verbatim>\<open>catch\<close> clause throws, as code units.\<close>

definition failure_message :: "nat list" where
  "failure_message =
     [350, 105, 102, 114, 101, 32, 231, 246, 122, 252, 108, 101, 109, 101, 100, 105, 46, 32,
      71, 101, 231, 101, 114, 115, 105, 122, 32, 97, 110, 97, 104, 116, 97, 114, 32, 118,
      101, 121, 97, 32, 98, 111, 122, 117, 107, 32, 118, 101, 114, 105, 46]"

text \<open>The \<^verbatim>\<open>try\<close> block: \<^verbatim>\<open>container.blocks\<close> throws on \<^verbatim>\<open>null\<close>, and
  \<^verbatim>\<open>blocks.forEach\<close> throws unless \<^verbatim>\<open>blocks\<close> is an array.\<close>

definition decrypt_try :: "Vector \<Rightarrow> nat list \<Rightarrow> nat list outcome" where
  "decrypt_try sk ciphertextBase64 =
     (case atob ciphertextBase64 of
        None \<Rightarrow> Throws InvalidCharacterError
      | Some jsonStr \<Rightarrow>
          (case JSON_parse jsonStr of
             None \<Rightarrow> Throws SyntaxError
           | Some container \<Rightarrow>
               if container = JNull then Throws TypeError
               else
                 (case get_property ''blocks'' container of
                    Some (JArr bs) \<Rightarrow>
                      (case decrypt_blocks sk bs of
                         Ok decryptedBits \<Rightarrow>
                           Ok (TextDecoder_decode (Uint8Array (bits_to_bytes decryptedBits)))
                       | Throws e \<Rightarrow> Throws e
                       | Unmodelled \<Rightarrow> Unmodelled)
                  | _ \<Rightarrow> Throws TypeError)))"

text \<open>The \<^verbatim>\<open>catch\<close> clause replaces whatever was thrown.\<close>

definition decryptText :: "Vector \<Rightarrow> nat list \<Rightarrow> nat list outcome" where
  "decryptText sk ciphertextBase64 =
     (case decrypt_try sk ciphertextBase64 of
        Throws e \<Rightarrow> Throws (Error failure_message)
      | r \<Rightarrow> r)"

section \<open>Notions used in the statements\<close>


text \<open>The value \<^verbatim>\<open>JSON.parse\<close> builds from the text \<^verbatim>\<open>JSON.stringify\<close> wrote for a
  container.\<close>

definition json_of_number :: "number \<Rightarrow> json" where
  "json_of_number x = (case x of Num n \<Rightarrow> JNum n | NaN \<Rightarrow> JNull)"

definition json_of_block :: "EncryptedBlock \<Rightarrow> json" where
  "json_of_block blk =
     JObj [(map of_char ''u'', JArr (map json_of_number (blk_u blk))),
           (map of_char ''v'', json_of_number (blk_v blk))]"

definition json_of_container :: "SerializedCiphertext \<Rightarrow> json" where
  "json_of_container c =
     JObj [(map of_char ''blocks'', JArr (map json_of_block (blocks c))),
           (map of_char ''meta'',
            JObj [(map of_char ''timestamp'', JNum (timestamp (meta c))),
                  (map of_char ''algorithm'', JStr (map of_char (algorithm (meta c))))])]"

text \<open>What key generation establishes, for integer \<open>A\<close>, \<open>s\<close>, \<open>e\<close> and \<open>b\<close>.\<close>

definition lwe_key :: "int list list \<Rightarrow> int list \<Rightarrow> int list \<Rightarrow> int list \<Rightarrow> bool" where
  "lwe_key A s e b =
     (length s = N \<and> (\<forall>x\<in>set s. - 3 \<le> x \<and> x \<le> 3) \<and>
      length A = M \<and> (\<forall>row\<in>set A. length row = N \<and> (\<forall>x\<in>set row. 0 \<le> x \<and> x < Q)) \<and>
      length e = M \<and> (\<forall>x\<in>set e. - 3 \<le> x \<and> x \<le> 3) \<and>
      b = map (\<lambda>i. ((\<Sum>j<N. A ! i ! j * s ! j) + e ! i) mod Q) [0..<M])"

text \<open>A block that encrypts the bit \<open>mbit\<close> under \<open>pk\<close> with the binary vector \<open>r\<close>, as
  the loop body of \<^verbatim>\<open>encryptText\<close> computes it.\<close>

definition encrypts :: "PublicKey \<Rightarrow> int \<Rightarrow> int list \<Rightarrow> EncryptedBlock \<Rightarrow> bool" where
  "encrypts pk mbit r blk =
     (length r = M \<and> (\<forall>x\<in>set r. x = 0 \<or> x = 1) \<and>
      matTransVecMul (pk_A pk) (map Num r) Q = Inr (blk_u blk) \<and>
      blk_v blk = num_rem (num_add (vecDot (pk_b pk) (map Num r) Q) (Num (mbit * (Q div 2)))) Q)"

section \<open>Arithmetic facts\<close>

lemma trunc_rem_nonneg: "0 \<le> a \<Longrightarrow> 0 < q \<Longrightarrow> trunc_rem a q = a mod q"
  by (cases "a = 0") (simp_all add: trunc_rem_def)

lemma positive_modulo_Num:
  assumes "0 < q"
  shows "positive_modulo (Num a) q = Num (a mod q)"
proof -
  have q0: "q \<noteq> 0" using assms by simp
  have lo: "- q < trunc_rem a q" and hi: "trunc_rem a q < q"
    using assms
    by (auto simp: trunc_rem_def sgn_if intro: le_less_trans [OF _ pos_mod_bound]
        simp: less_imp_le) (smt (verit) pos_mod_bound pos_mod_sign)+
  have cong: "trunc_rem a q mod q = a mod q"
    using assms by (auto simp: trunc_rem_def sgn_if abs_if mod_minus_eq)
  have "trunc_rem (trunc_rem a q + q) q = (trunc_rem a q + q) mod q"
    using lo assms by (intro trunc_rem_nonneg) simp_all
  also have "\<dots> = a mod q" using cong by simp
  finally show ?thesis using q0 by (simp add: positive_modulo_def)
qed

lemma sum_loop_Num:
  assumes "\<And>k. k < n \<Longrightarrow> f k = Num (g k)"
  shows "sum_loop n f = Num (\<Sum>k<n. g k)"
proof -
  have "k \<le> n \<Longrightarrow> fold (\<lambda>k acc. num_add acc (f k)) [0..<k] (Num 0) = Num (\<Sum>j<k. g j)" for k
    by (induction k) (simp_all add: assms)
  then show ?thesis by (simp add: sum_loop_def)
qed

section \<open>The linear algebra on integer operands\<close>

lemma at_map_Num: "i < length xs \<Longrightarrow> at (map Num xs) i = Num (xs ! i)"
  by (simp add: at_def)

lemma map_upt_nth: "map (\<lambda>i. f (xs ! i)) [0..<length xs] = map f xs"
proof -
  have "map (\<lambda>i. f (xs ! i)) [0..<length xs] = map f (map ((!) xs) [0..<length xs])"
    by (simp add: comp_def)
  then show ?thesis by (simp only: map_nth)
qed

lemma matVecMul_rows:
  "A \<noteq> [] \<Longrightarrow> matVecMul A s q =
     Inr (map (\<lambda>i. positive_modulo
                      (sum_loop (length (hd A)) (\<lambda>j. num_mul (at (A ! i) j) (at s j))) q)
              [0..<length A])"
  by (simp add: matVecMul_def list.case_eq_if)

lemma matVecMul_Num:
  assumes "0 < q" "A \<noteq> []" "\<forall>row\<in>set A. length row = length s"
  shows "matVecMul (map (map Num) A) (map Num s) q =
         Inr (map (\<lambda>row. Num ((\<Sum>j<length s. row ! j * s ! j) mod q)) A)"
proof -
  have n: "length (hd A) = length s" using assms(2,3) by simp
  have row: "sum_loop (length s) (\<lambda>j. num_mul (at (map Num (A ! i)) j) (at (map Num s) j))
             = Num (\<Sum>j<length s. A ! i ! j * s ! j)" if "i < length A" for i
  proof (rule sum_loop_Num)
    fix k assume "k < length s"
    moreover have "length (A ! i) = length s" using assms(3) that by simp
    ultimately show "num_mul (at (map Num (A ! i)) k) (at (map Num s) k) = Num (A ! i ! k * s ! k)"
      using that by (simp add: at_map_Num)
  qed
  have "matVecMul (map (map Num) A) (map Num s) q =
        Inr (map (\<lambda>i. Num ((\<Sum>j<length s. A ! i ! j * s ! j) mod q)) [0..<length A])"
    using assms(1,2) n
    by (simp add: matVecMul_rows hd_map row positive_modulo_Num cong: map_cong)
  then show ?thesis by (simp add: map_upt_nth [where f = "\<lambda>row. Num ((\<Sum>j<length s. row ! j * s ! j) mod q)"])
qed

lemma matTransVecMul_cols:
  "A \<noteq> [] \<Longrightarrow> matTransVecMul A r q =
     Inr (map (\<lambda>j. positive_modulo
                      (sum_loop (length A) (\<lambda>i. num_mul (at (A ! i) j) (at r i))) q)
              [0..<length (hd A)])"
  by (simp add: matTransVecMul_def list.case_eq_if)

lemma matTransVecMul_Num:
  assumes "0 < q" "A \<noteq> []" "\<forall>row\<in>set A. length row = n" "length r = length A"
  shows "matTransVecMul (map (map Num) A) (map Num r) q =
         Inr (map (\<lambda>j. Num ((\<Sum>i<length A. A ! i ! j * r ! i) mod q)) [0..<n])"
proof -
  have n: "length (hd A) = n" using assms(2,3) by simp
  have col: "sum_loop (length A) (\<lambda>i. num_mul (at (map (map Num) A ! i) j) (at (map Num r) i))
             = Num (\<Sum>i<length A. A ! i ! j * r ! i)" if "j < n" for j
  proof (rule sum_loop_Num)
    fix k assume k: "k < length A"
    then have "length (A ! k) = n" using assms(3) by simp
    then show "num_mul (at (map (map Num) A ! k) j) (at (map Num r) k) = Num (A ! k ! j * r ! k)"
      using that k assms(4) by (simp add: at_map_Num)
  qed
  show ?thesis
    using assms(1,2) n
    by (simp add: matTransVecMul_cols hd_map col positive_modulo_Num cong: map_cong)
qed

lemma vecDot_Num:
  assumes "0 < q" "length v1 \<le> length v2"
  shows "vecDot (map Num v1) (map Num v2) q = Num ((\<Sum>i<length v1. v1 ! i * v2 ! i) mod q)"
proof -
  have "sum_loop (length v1) (\<lambda>i. num_mul (map Num v1 ! i) (at (map Num v2) i))
        = Num (\<Sum>i<length v1. v1 ! i * v2 ! i)"
    using assms(2) by (intro sum_loop_Num) (simp add: at_map_Num)
  then show ?thesis using assms(1) by (simp add: vecDot_def positive_modulo_Num)
qed

lemma vecAdd_Num:
  assumes "0 < q" "length v1 \<le> length v2"
  shows "vecAdd (map Num v1) (map Num v2) q =
         map (\<lambda>i. Num ((v1 ! i + v2 ! i) mod q)) [0..<length v1]"
  using assms by (simp add: vecAdd_def at_map_Num positive_modulo_Num cong: map_cong)

section \<open>The decision on integer operands\<close>

lemma or_bit: "x = 0 \<or> x = 1 \<Longrightarrow> or (a * 2) (x::int) = 2 * a + x"
  by (auto simp: or_one_eq)

lemma fold_bits:
  "\<forall>x\<in>set g. x = 0 \<or> x = (1::int) \<Longrightarrow>
   fold (\<lambda>x byteVal. or (byteVal * 2) x) g a
   = a * 2 ^ length g + (\<Sum>i<length g. g ! i * 2 ^ (length g - 1 - i))"
proof (induction g arbitrary: a)
  case Nil then show ?case by simp
next
  case (Cons x g)
  have x: "x = 0 \<or> x = 1" using Cons.prems by simp
  have "(\<Sum>i<Suc (length g). (x # g) ! i * 2 ^ (Suc (length g) - 1 - i))
        = x * 2 ^ length g + (\<Sum>i<length g. g ! i * 2 ^ (length g - 1 - i))"
    by (simp add: sum.lessThan_Suc_shift del: sum.lessThan_Suc)
  then show ?case using Cons x by (simp add: or_bit algebra_simps)
qed

lemma trunc_rem_bounds: 
  assumes "0 < q" shows "- q < trunc_rem a q" "trunc_rem a q < q"
proof -
  have "0 \<le> a mod q" "a mod q < q" "0 \<le> (- a) mod q" "(- a) mod q < q"
    using assms by simp_all
  then show "- q < trunc_rem a q" "trunc_rem a q < q"
    using assms by (auto simp: trunc_rem_def sgn_if abs_if) (smt (verit) pos_mod_bound pos_mod_sign)+
qed

lemma trunc_rem_cong: "0 < q \<Longrightarrow> trunc_rem a q mod q = a mod q"
  by (auto simp: trunc_rem_def sgn_if abs_if mod_minus_eq)

lemma trunc_rem_fix:
  assumes "0 < q"
  shows "(if trunc_rem a q < 0 then trunc_rem a q + q else trunc_rem a q) = a mod q"
proof -
  let ?t = "trunc_rem a q"
  have b: "- q < ?t" "?t < q" using trunc_rem_bounds [OF assms] by auto
  show ?thesis
  proof (cases "?t < 0")
    case True
    then have "(?t + q) mod q = ?t + q" using b by (intro mod_pos_pos_trivial) auto
    moreover have "(?t + q) mod q = a mod q" using trunc_rem_cong [OF assms, of a] by simp
    ultimately show ?thesis using True by simp
  next
    case False
    then have "?t mod q = ?t" using b by (intro mod_pos_pos_trivial) auto
    then show ?thesis using False trunc_rem_cong [OF assms, of a] by simp
  qed
qed

lemma Q_pos: "0 < Q" by (simp add: Q_def)

lemma wrap_negative:
  assumes "0 < q"
  shows "(if trunc_rem a q < 0 then Num (trunc_rem a q + q) else Num (trunc_rem a q))
         = Num (a mod q)"
  using trunc_rem_fix [OF assms, of a] by (auto split: if_splits)

lemma difference_Num: 
  assumes "length sk \<le> length u"
  shows "difference (map Num sk) (map Num u) (Num v) = Num ((v - (\<Sum>i<length sk. sk ! i * u ! i) mod Q) mod Q)"
  using Q_pos
  by (simp add: difference_def vecDot_Num [OF Q_pos assms] Let_def wrap_negative
      split del: if_split cong: if_cong)

lemma center_Num: "center (Num d) = Num (if Q - Q div 4 < d then d - Q else d)"
  by (simp add: center_def Let_def)

lemma decision_Num: "decision (Num d) = (if \<bar>d - Q div 2\<bar> < Q div 4 then 1 else 0)"
  by (simp add: decision_def Let_def)

section \<open>Blocks read back from a parsed container\<close>







section \<open>Bits to bytes\<close>

lemma bits_to_bytes_group:
  assumes "length g = 8"
  shows "bits_to_bytes (g @ rest) = fold (\<lambda>x byteVal. or (push_bit 1 byteVal) x) g 0 # bits_to_bytes rest"
proof -
  obtain b g' where g: "g = b # g'" using assms by (cases g) auto
  have "bits_to_bytes ((b # g') @ rest) =
        fold (\<lambda>x byteVal. or (push_bit 1 byteVal) x) (take 8 ((b # g') @ rest)) 0
        # bits_to_bytes (drop 8 ((b # g') @ rest))"
    by (simp del: take_Cons_numeral drop_Cons_numeral)
  then show ?thesis using assms by (simp add: g [symmetric])
qed

lemma bits_to_bytes_short:
  assumes "g \<noteq> []" "length g < 8"
  shows "bits_to_bytes g = [fold (\<lambda>x byteVal. or (push_bit 1 byteVal) x) g 0]"
proof -
  obtain b g' where g: "g = b # g'" using assms by (cases g) auto
  have "bits_to_bytes (b # g') =
        fold (\<lambda>x byteVal. or (push_bit 1 byteVal) x) (take 8 (b # g')) 0
        # bits_to_bytes (drop 8 (b # g'))"
    by (simp del: take_Cons_numeral drop_Cons_numeral)
  then show ?thesis using assms by (simp add: g [symmetric])
qed

lemma bits_to_bytes_append:
  "length full = 8 * k \<Longrightarrow> bits_to_bytes (full @ g) = bits_to_bytes full @ bits_to_bytes g"
proof (induction k arbitrary: full)
  case 0 then show ?case by simp
next
  case (Suc k)
  define g8 where "g8 = take 8 full"
  define rest where "rest = drop 8 full"
  have full: "full = g8 @ rest" and l8: "length g8 = 8" and lr: "length rest = 8 * k"
    using Suc.prems by (simp_all add: g8_def rest_def)
  have "bits_to_bytes (full @ g) = fold (\<lambda>x byteVal. or (push_bit 1 byteVal) x) g8 0 # bits_to_bytes (rest @ g)"
    using bits_to_bytes_group [OF l8, of "rest @ g"] by (simp add: full)
  moreover have "bits_to_bytes full = fold (\<lambda>x byteVal. or (push_bit 1 byteVal) x) g8 0 # bits_to_bytes rest"
    using bits_to_bytes_group [OF l8, of rest] by (simp add: full)
  ultimately show ?case using Suc.IH [OF lr] by simp
qed

section \<open>Sampling\<close>

lemma getRandomInt_Num:
  "0 < q \<Longrightarrow> getRandomInt q g = (Num (uint (shd g) mod q), stl g)"
  by (simp add: getRandomInt_def trunc_rem_nonneg)

lemma getRandomError_Num:
  "0 \<le> rg \<Longrightarrow> getRandomError rg g = (Num (uint (shd g) mod (rg * 2 + 1) - rg), stl g)"
  by (simp add: getRandomError_def getRandomInt_Num)

lemma push_loop_map:
  assumes "\<And>h. draw h = (f (shd h), stl h)"
  shows "push_loop n draw g = (map f (stake n g), sdrop n g)"
  by (induction n arbitrary: g) (simp_all add: assms)

lemma push_loop_getRandomInt:
  "0 < q \<Longrightarrow> push_loop n (getRandomInt q) g = (map (\<lambda>w. Num (uint w mod q)) (stake n g), sdrop n g)"
  by (rule push_loop_map) (simp add: getRandomInt_Num)

lemma push_loop_getRandomError:
  "0 \<le> rg \<Longrightarrow> push_loop n (getRandomError rg) g
     = (map (\<lambda>w. Num (uint w mod (rg * 2 + 1) - rg)) (stake n g), sdrop n g)"
  by (rule push_loop_map) (simp add: getRandomError_Num)

lemma push_loop_rows:
  assumes "\<And>h. draw h = (f h, sdrop c h)"
  shows "push_loop n draw g = (map (\<lambda>i. f (sdrop (i * c) g)) [0..<n], sdrop (n * c) g)"
proof (induction n arbitrary: g)
  case 0 then show ?case by simp
next
  case (Suc n)
  have "map (\<lambda>i. f (sdrop (i * c) g)) [0..<Suc n]
        = f g # map (\<lambda>i. f (sdrop (i * c) (sdrop c g))) [0..<n]"
    by (simp add: upt_conv_Cons map_Suc_upt [symmetric] sdrop_add add.commute del: upt_Suc)
  then show ?case using Suc [of "sdrop c g"] by (simp add: assms sdrop_add add.commute del: upt_Suc)
qed

lemma generateMatrix_rows:
  assumes "0 < q"
  shows "generateMatrix rows cols q g
     = (map (\<lambda>i. map (\<lambda>w. Num (uint w mod q)) (stake cols (sdrop (i * cols) g))) [0..<rows],
        sdrop (rows * cols) g)"
  unfolding generateMatrix_def
  by (rule push_loop_rows) (simp add: push_loop_getRandomInt assms)


lemma generateKeys_lwe_key:
  "\<exists>A s e b g'.
     generateKeys g = Inr (\<lparr>keys_pk = \<lparr>pk_A = map (map Num) A, pk_b = map Num b\<rparr>,
                           keys_sk = map Num s\<rparr>, g') \<and> lwe_key A s e b"
proof -
  define s where "s = map (\<lambda>w. uint w mod 7 - 3) (stake N g)"
  define g1 where "g1 = sdrop N g"
  define A where "A = map (\<lambda>i. map (\<lambda>w. uint w mod Q) (stake N (sdrop (i * N) g1))) [0..<M]"
  define g2 where "g2 = sdrop (M * N) g1"
  define e where "e = map (\<lambda>w. uint w mod 7 - 3) (stake M g2)"
  define b where "b = map (\<lambda>i. ((\<Sum>j<N. A ! i ! j * s ! j) + e ! i) mod Q) [0..<M]"
  have ls: "length s = N" and lA: "length A = M" and le: "length e = M"
    by (simp_all add: s_def A_def e_def)
  have rows: "\<forall>row\<in>set A. length row = length s" by (auto simp: A_def ls)
  have ne: "A \<noteq> []" using lA by (auto simp: M_def)
  have 1: "push_loop N (getRandomError ERROR_RANGE) g = (map Num s, g1)"
    by (simp add: push_loop_getRandomError ERROR_RANGE_def s_def g1_def comp_def)
  have 2: "generateMatrix M N Q g1 = (map (map Num) A, g2)"
    by (simp add: generateMatrix_rows Q_pos A_def g2_def comp_def)
  have 3: "push_loop M (getRandomError ERROR_RANGE) g2 = (map Num e, sdrop M g2)"
    by (simp add: push_loop_getRandomError ERROR_RANGE_def e_def comp_def)
  define As where "As = map (\<lambda>row. (\<Sum>j<length s. row ! j * s ! j) mod Q) A"
  have 4: "matVecMul (map (map Num) A) (map Num s) Q = Inr (map Num As)"
    by (simp add: matVecMul_Num [OF Q_pos ne rows] As_def comp_def)
  have lAs: "length As = M" by (simp add: As_def lA)
  have "vecAdd (map Num As) (map Num e) Q = map (\<lambda>i. Num ((As ! i + e ! i) mod Q)) [0..<length As]"
    by (rule vecAdd_Num [OF Q_pos]) (simp add: lAs le)
  also have "\<dots> = map Num b"
    by (simp add: b_def lAs As_def lA ls mod_add_left_eq cong: map_cong)
  finally have 5: "vecAdd (map Num As) (map Num e) Q = map Num b" .
  have small: "- 3 \<le> uint w mod 7 - 3 \<and> uint w mod 7 - 3 \<le> 3" for w :: "32 word"
    using pos_mod_bound [of 7 "uint w"] pos_mod_sign [of 7 "uint w"] by linarith
  have key: "lwe_key A s e b"
    unfolding lwe_key_def using small Q_pos
    by (auto simp: ls lA le b_def s_def e_def A_def)
  have "generateKeys g = Inr (\<lparr>keys_pk = \<lparr>pk_A = map (map Num) A, pk_b = map Num b\<rparr>,
                           keys_sk = map Num s\<rparr>, sdrop M g2)"
    by (simp add: generateKeys_def 1 2 3 4 5)
  then show ?thesis using key by blast
qed

section \<open>The encryption loop\<close>

lemma byte_bits_binary: "x \<in> set (byte_bits byte) \<Longrightarrow> x = 0 \<or> x = 1"
  by (auto simp: byte_bits_def)

lemma bytes_to_bits_binary: "x \<in> set (bytes_to_bits bytes) \<Longrightarrow> x = 0 \<or> x = 1"
  by (auto simp: bytes_to_bits_def dest: byte_bits_binary)

lemma length_bytes_to_bits: "length (bytes_to_bits bytes) = 8 * length bytes"
  by (induction bytes) (simp_all add: bytes_to_bits_def byte_bits_def)

lemma binary_draw:
  "\<exists>r. push_loop M (getRandomInt 2) g = (map Num r, sdrop M g) \<and> length r = M \<and>
       (\<forall>x\<in>set r. x = 0 \<or> x = 1)"
proof -
  have "uint w mod 2 = 0 \<or> uint w mod 2 = 1" for w :: "32 word" by presburger
  then show ?thesis
    by (intro exI [of _ "map (\<lambda>w. uint w mod 2) (stake M g)"])
       (auto simp: push_loop_getRandomInt comp_def)
qed

lemma encrypt_bits_blocks:
  assumes "pk_A pk \<noteq> []"
  shows "\<exists>bs rs sts g'. encrypt_bits pk index mbits g = Inr (bs, sts, g') \<and>
           length rs = length mbits \<and>
           list_all2 (\<lambda>(mbit, r) blk. encrypts pk mbit r blk) (zip mbits rs) bs"
proof (induction mbits arbitrary: index g)
  case Nil
  then show ?case by simp
next
  case (Cons mbit mbits)
  obtain r where r: "push_loop M (getRandomInt 2) g = (map Num r, sdrop M g)"
      "length r = M" "\<forall>x\<in>set r. x = 0 \<or> x = 1"
    using binary_draw by blast
  obtain u where u: "matTransVecMul (pk_A pk) (map Num r) Q = Inr u"
    using assms by (simp add: matTransVecMul_cols)
  obtain bs rs sts g' where IH:
      "encrypt_bits pk (index + 1) mbits (sdrop M g) = Inr (bs, sts, g')"
      "length rs = length mbits"
      "list_all2 (\<lambda>(mbit, r) blk. encrypts pk mbit r blk) (zip mbits rs) bs"
    using Cons.IH by blast
  define blk where "blk = \<lparr>blk_u = u, blk_v = num_rem (num_add (vecDot (pk_b pk) (map Num r) Q)
                              (Num (mbit * (Q div 2)))) Q\<rparr>"
  have "encrypts pk mbit r blk" using r u by (simp add: encrypts_def blk_def)
  moreover have "\<exists>sts'. encrypt_bits pk index (mbit # mbits) g = Inr (blk # bs, sts', g')"
    using r(1) u IH(1) by (simp add: blk_def Let_def)
  ultimately show ?case
    using IH(2,3) by (intro exI [of _ "blk # bs"] exI [of _ "r # rs"]) auto
qed

section \<open>Correctness of the threshold decoding\<close>

text \<open>With \<open>b = A s + e\<close>, the difference \<open>v - s.u\<close> is \<open>e.r + mbit * floor(Q/2)\<close> modulo
  \<open>Q\<close>, and \<open>|e.r| \<le> 3 * 256 = 768 < 832 = floor(Q/4)\<close>: the decision is always the bit.\<close>

lemma sum_exchange:
  fixes a :: "nat \<Rightarrow> nat \<Rightarrow> int"
  shows "(\<Sum>i<m. ((\<Sum>j<n. a i j * s j) + e i) * r i) - (\<Sum>j<n. s j * (\<Sum>i<m. a i j * r i))
         = (\<Sum>i<m. e i * r i)"
proof -
  have "(\<Sum>i<m. ((\<Sum>j<n. a i j * s j) + e i) * r i)
        = (\<Sum>i<m. \<Sum>j<n. a i j * s j * r i) + (\<Sum>i<m. e i * r i)"
    by (simp add: distrib_right sum.distrib sum_distrib_right)
  moreover have "(\<Sum>j<n. s j * (\<Sum>i<m. a i j * r i)) = (\<Sum>j<n. \<Sum>i<m. a i j * s j * r i)"
    by (simp add: sum_distrib_left mult_ac)
  moreover have "(\<Sum>j<n. \<Sum>i<m. a i j * s j * r i) = (\<Sum>i<m. \<Sum>j<n. a i j * s j * r i)"
    by (rule sum.swap)
  ultimately show ?thesis by simp
qed

lemma noise_bound:
  assumes "\<forall>i<m. \<bar>e i\<bar> \<le> (3::int)" "\<forall>i<m. r i = 0 \<or> r i = (1::int)"
  shows "\<bar>\<Sum>i<m. e i * r i\<bar> \<le> 3 * int m"
proof -
  have "\<bar>\<Sum>i<m. e i * r i\<bar> \<le> (\<Sum>i<m. \<bar>e i * r i\<bar>)" by (rule sum_abs)
  also have "\<dots> \<le> (\<Sum>i<m. 3)"
  proof (rule sum_mono)
    fix i assume "i \<in> {..<m}"
    then show "\<bar>e i * r i\<bar> \<le> 3" using assms by (auto simp: abs_mult)
  qed
  finally show ?thesis by simp
qed

lemma threshold_cases:
  assumes "\<bar>E\<bar> \<le> 768" "mbit = 0 \<or> mbit = (1::int)"
  shows "decision (center (Num ((E + mbit * (Q div 2)) mod Q))) = mbit"
proof -
  have E: "- 768 \<le> E" "E \<le> 768" using assms(1) by auto
  consider "mbit = 0" "0 \<le> E" | "mbit = 0" "E < 0" | "mbit = 1" using assms(2) by linarith
  then show ?thesis
  proof cases
    case 1
    then have "(E + mbit * (Q div 2)) mod Q = E"
      using E by (simp add: mod_pos_pos_trivial Q_def)
    then show ?thesis using 1 E by (simp add: center_Num decision_Num Q_def)
  next
    case 2
    have "(E + 3329) mod 3329 = E + 3329" using 2 E by (intro mod_pos_pos_trivial) auto
    then have "(E + mbit * (Q div 2)) mod Q = E + 3329" using 2 by (simp add: Q_def)
    then show ?thesis using 2 E by (simp add: center_Num decision_Num Q_def)
  next
    case 3
    have "(E + 1664) mod 3329 = E + 1664" using E by (intro mod_pos_pos_trivial) auto
    then have "(E + mbit * (Q div 2)) mod Q = E + 1664" using 3 by (simp add: Q_def)
    then show ?thesis using 3 E by (simp add: center_Num decision_Num Q_def)
  qed
qed

lemma mod_mix: "(x mod q + c - y mod q) mod q = (x + c - y) mod (q::int)"
proof -
  have "(x mod q + c - y mod q) mod q = (x mod q + c - y) mod q"
    by (simp add: mod_diff_right_eq)
  also have "\<dots> = (x mod q + (c - y)) mod q" by (simp add: algebra_simps)
  also have "\<dots> = (x + (c - y)) mod q" by (simp only: mod_add_left_eq)
  finally show ?thesis by (simp add: algebra_simps)
qed

lemma decrypt_bit_correct:
  assumes key: "lwe_key A s e b"
    and r: "length r = M" "\<forall>x\<in>set r. x = 0 \<or> x = 1"
    and mbit: "mbit = 0 \<or> mbit = 1"
  defines "us \<equiv> map (\<lambda>j. (\<Sum>i<M. A ! i ! j * r ! i) mod Q) [0..<N]"
    and "vv \<equiv> ((\<Sum>i<M. b ! i * r ! i) mod Q + mbit * (Q div 2)) mod Q"
  shows "decrypt_bit (map Num s) (map Num us) (Num vv) = mbit"
proof -
  have ls: "length s = N" and le: "length e = M"
    and b: "b = map (\<lambda>i. ((\<Sum>j<N. A ! i ! j * s ! j) + e ! i) mod Q) [0..<M]"
    and es: "\<forall>x\<in>set e. - 3 \<le> x \<and> x \<le> 3"
    using key by (simp_all add: lwe_key_def)
  define E where "E = (\<Sum>i<M. e ! i * r ! i)"
  have lus: "length s \<le> length us" by (simp add: us_def ls)
  have S1: "(\<Sum>i<M. b ! i * r ! i) mod Q
            = (\<Sum>i<M. ((\<Sum>j<N. A ! i ! j * s ! j) + e ! i) * r ! i) mod Q"
  proof -
    have "(\<Sum>i<M. b ! i * r ! i) mod Q = (\<Sum>i<M. (b ! i * r ! i) mod Q) mod Q"
      by (simp add: mod_sum_eq)
    also have "\<dots> = (\<Sum>i<M. (((\<Sum>j<N. A ! i ! j * s ! j) + e ! i) * r ! i) mod Q) mod Q"
    proof (rule arg_cong [where f = "\<lambda>x. x mod Q"], rule sum.cong [OF refl])
      fix i assume "i \<in> {..<M}"
      then have "b ! i = ((\<Sum>j<N. A ! i ! j * s ! j) + e ! i) mod Q" by (simp add: b)
      then show "b ! i * r ! i mod Q = ((\<Sum>j<N. A ! i ! j * s ! j) + e ! i) * r ! i mod Q"
        by (simp only: mod_mult_left_eq)
    qed
    finally show ?thesis by (simp add: mod_sum_eq)
  qed
  have S2: "(\<Sum>j<N. s ! j * us ! j) mod Q = (\<Sum>j<N. s ! j * (\<Sum>i<M. A ! i ! j * r ! i)) mod Q"
  proof -
    have "(\<Sum>j<N. s ! j * us ! j) mod Q = (\<Sum>j<N. (s ! j * us ! j) mod Q) mod Q"
      by (simp add: mod_sum_eq)
    also have "\<dots> = (\<Sum>j<N. (s ! j * (\<Sum>i<M. A ! i ! j * r ! i)) mod Q) mod Q"
    proof (rule arg_cong [where f = "\<lambda>x. x mod Q"], rule sum.cong [OF refl])
      fix j assume "j \<in> {..<N}"
      then have "us ! j = (\<Sum>i<M. A ! i ! j * r ! i) mod Q" by (simp add: us_def)
      then show "s ! j * us ! j mod Q = s ! j * (\<Sum>i<M. A ! i ! j * r ! i) mod Q"
        by (simp only: mod_mult_right_eq)
    qed
    finally show ?thesis by (simp add: mod_sum_eq)
  qed
  have "(vv - (\<Sum>j<N. s ! j * us ! j) mod Q) mod Q
        = ((\<Sum>i<M. b ! i * r ! i) mod Q + mbit * (Q div 2) - (\<Sum>j<N. s ! j * us ! j) mod Q) mod Q"
    by (simp add: vv_def mod_diff_left_eq)
  also have "\<dots> = ((\<Sum>i<M. ((\<Sum>j<N. A ! i ! j * s ! j) + e ! i) * r ! i) mod Q + mbit * (Q div 2)
                   - (\<Sum>j<N. s ! j * (\<Sum>i<M. A ! i ! j * r ! i)) mod Q) mod Q"
    by (simp only: S1 S2)
  also have "\<dots> = ((\<Sum>i<M. ((\<Sum>j<N. A ! i ! j * s ! j) + e ! i) * r ! i) + mbit * (Q div 2)
                   - (\<Sum>j<N. s ! j * (\<Sum>i<M. A ! i ! j * r ! i))) mod Q"
    by (rule mod_mix)
  also have "\<dots> = (E + mbit * (Q div 2)) mod Q"
    using sum_exchange [where a = "\<lambda>i j. A ! i ! j" and s = "\<lambda>j. s ! j" and e = "\<lambda>i. e ! i"
        and r = "\<lambda>i. r ! i" and m = M and n = N]
    by (simp add: E_def algebra_simps)
  finally have d0: "(vv - (\<Sum>j<N. s ! j * us ! j) mod Q) mod Q = (E + mbit * (Q div 2)) mod Q" .
  have "\<bar>e ! i\<bar> \<le> 3" if "i < M" for i
  proof -
    have "e ! i \<in> set e" using le that by simp
    then have "- 3 \<le> e ! i \<and> e ! i \<le> 3" using es by blast
    then show ?thesis by linarith
  qed
  moreover have "r ! i = 0 \<or> r ! i = 1" if "i < M" for i
  proof -
    have "r ! i \<in> set r" using r(1) that by simp
    then show ?thesis using r(2) by blast
  qed
  ultimately have "\<bar>E\<bar> \<le> 3 * int M"
    unfolding E_def by (intro noise_bound) auto
  then have E: "\<bar>E\<bar> \<le> 768" by (simp add: M_def)
  have "decrypt_bit (map Num s) (map Num us) (Num vv)
        = decision (center (Num ((E + mbit * (Q div 2)) mod Q)))"
    by (simp only: decrypt_bit_def difference_Num [OF lus] ls d0)
  then show ?thesis using threshold_cases [OF E mbit] by simp
qed

section \<open>Blocks of a well-formed public key\<close>

lemma M_pos: "0 < M" by (simp add: M_def)

lemma encrypts_typed:
  assumes A: "length A = M" "\<forall>row\<in>set A. length row = N" and b: "length b = M"
    and enc: "encrypts \<lparr>pk_A = map (map Num) A, pk_b = map Num b\<rparr> mbit r blk"
    and mbit: "mbit = 0 \<or> mbit = 1"
  shows "blk = \<lparr>blk_u = map Num (map (\<lambda>j. (\<Sum>i<M. A ! i ! j * r ! i) mod Q) [0..<N]),
               blk_v = Num (((\<Sum>i<M. b ! i * r ! i) mod Q + mbit * (Q div 2)) mod Q)\<rparr>"
proof -
  have r: "length r = M" using enc by (simp add: encrypts_def)
  have ne: "A \<noteq> []" using A(1) M_pos by auto
  have "matTransVecMul (map (map Num) A) (map Num r) Q
        = Inr (map (\<lambda>j. Num ((\<Sum>i<length A. A ! i ! j * r ! i) mod Q)) [0..<N])"
    by (rule matTransVecMul_Num [OF Q_pos ne A(2)]) (simp add: r A(1))
  then have u: "blk_u blk = map Num (map (\<lambda>j. (\<Sum>i<M. A ! i ! j * r ! i) mod Q) [0..<N])"
    using enc by (simp add: encrypts_def A(1) comp_def)
  have dot: "vecDot (map Num b) (map Num r) Q = Num ((\<Sum>i<M. b ! i * r ! i) mod Q)"
    using vecDot_Num [OF Q_pos, of b r] by (simp add: b r)
  have "0 \<le> (\<Sum>i<M. b ! i * r ! i) mod Q + mbit * (Q div 2)"
    using mbit Q_pos by (auto simp: Q_def)
  then have v: "blk_v blk = Num (((\<Sum>i<M. b ! i * r ! i) mod Q + mbit * (Q div 2)) mod Q)"
    using enc Q_pos by (simp add: encrypts_def dot trunc_rem_nonneg)
  show ?thesis using u v by (cases blk) simp
qed

lemma encryptText_blocks:
  assumes "pk_A pk \<noteq> []"
  shows "\<exists>bs rs sts g'.
           encryptText pk plaintext now g
           = Inr (\<lparr>ciphertext = map of_char (btoa (JSON_stringify
                      \<lparr>blocks = bs, meta = \<lparr>timestamp = now, algorithm = ''LWE-Regev''\<rparr>\<rparr>)),
                   stats = sts\<rparr>, g') \<and>
           length rs = length (bytes_to_bits (TextEncoder_encode plaintext)) \<and>
           list_all2 (\<lambda>(mbit, r) blk. encrypts pk mbit r blk)
             (zip (bytes_to_bits (TextEncoder_encode plaintext)) rs) bs"
proof -
  obtain bs rs sts g' where
    "encrypt_bits pk 0 (bytes_to_bits (TextEncoder_encode plaintext)) g = Inr (bs, sts, g')"
    "length rs = length (bytes_to_bits (TextEncoder_encode plaintext))"
    "list_all2 (\<lambda>(mbit, r) blk. encrypts pk mbit r blk)
       (zip (bytes_to_bits (TextEncoder_encode plaintext)) rs) bs"
    using encrypt_bits_blocks [OF assms] by blast
  then show ?thesis by (auto simp: encryptText_def Let_def)
qed

lemma encrypted_block_shape:
  assumes wfA: "length A = M" "\<forall>row\<in>set A. length row = N" and wfb: "length b = M"
    and all: "list_all2 (\<lambda>(mbit, r) blk. encrypts \<lparr>pk_A = map (map Num) A, pk_b = map Num b\<rparr> mbit r blk)
                (zip mbits rs) bs"
    and bin: "\<forall>x\<in>set mbits. x = 0 \<or> x = 1"
    and blk: "blk \<in> set bs"
  shows "\<exists>us x. blk_u blk = map Num us \<and> length us = N \<and> N = 128 \<and>
          (\<forall>y\<in>set us. 0 \<le> y \<and> y < Q) \<and> blk_v blk = Num x \<and> 0 \<le> x \<and> x < Q"
proof -
  obtain k where k: "k < length bs" "blk = bs ! k" using blk by (metis in_set_conv_nth)
  let ?us = "map (\<lambda>j. (\<Sum>i<M. A ! i ! j * rs ! k ! i) mod Q) [0..<N]"
  let ?x = "((\<Sum>i<M. b ! i * rs ! k ! i) mod Q + mbits ! k * (Q div 2)) mod Q"
  have kz: "k < length (zip mbits rs)" using list_all2_lengthD [OF all] k(1) by simp
  have "(case zip mbits rs ! k of (mbit, r) \<Rightarrow> encrypts \<lparr>pk_A = map (map Num) A, pk_b = map Num b\<rparr> mbit r) (bs ! k)"
    by (rule list_all2_nthD [OF all kz])
  then have e: "encrypts \<lparr>pk_A = map (map Num) A, pk_b = map Num b\<rparr> (mbits ! k) (rs ! k) blk"
    using kz k(2) by simp
  have "mbits ! k \<in> set mbits" using kz by simp
  then have m: "mbits ! k = 0 \<or> mbits ! k = 1" using bin by blast
  have blk: "blk = \<lparr>blk_u = map Num ?us, blk_v = Num ?x\<rparr>"
    by (rule encrypts_typed [OF wfA wfb e m])
  have u: "blk_u blk = map Num ?us" by (subst blk) simp
  have v: "blk_v blk = Num ?x" by (subst blk) simp
  have r: "\<forall>y\<in>set ?us. 0 \<le> y \<and> y < Q" using Q_pos by auto
  have l: "length ?us = N" by simp
  have n: "N = 128" by (simp add: N_def)
  have x: "0 \<le> ?x" "?x < Q" using Q_pos by simp_all
  show ?thesis
    by (intro exI [of _ ?us] exI [of _ ?x] conjI) (fact u l n r v x)+
qed


section \<open>Claims about the arithmetic\<close>







text \<open>
  \<^bold>\<open>C4\<close> (as amended). The bits are grouped by eight, most significant bit first. An
  incomplete trailing group of \<open>k < 8\<close> bits \<open>b0 .. b(k-1)\<close> gives the byte
  \<open>sum of b_i * 2^(k-1-i)\<close>: the bits are right-aligned, the missing bits are not
  supplied as trailing zeros. A full group gives \<open>sum of b_i * 2^(7-i)\<close>.
\<close>

theorem trailing_group_right_aligned:
  "(length full mod 8 = 0 \<and> g \<noteq> [] \<and> length g < 8 \<and> (\<forall>x\<in>set g. x = 0 \<or> x = 1) \<longrightarrow>
      bits_to_bytes (full @ g)
      = bits_to_bytes full @ [\<Sum>i<length g. g ! i * 2 ^ (length g - 1 - i)]) \<and>
   (length g = 8 \<and> (\<forall>x\<in>set g. x = 0 \<or> x = 1) \<longrightarrow>
      bits_to_bytes (g @ rest) = (\<Sum>i<8. g ! i * 2 ^ (7 - i)) # bits_to_bytes rest)"
proof (intro conjI impI)
  assume a: "length full mod 8 = 0 \<and> g \<noteq> [] \<and> length g < 8 \<and> (\<forall>x\<in>set g. x = 0 \<or> x = 1)"
  then obtain k where "length full = 8 * k" by (auto simp: mod_eq_0_iff_dvd)
  then have "bits_to_bytes (full @ g) = bits_to_bytes full @ bits_to_bytes g"
    by (rule bits_to_bytes_append)
  then show "bits_to_bytes (full @ g)
      = bits_to_bytes full @ [\<Sum>i<length g. g ! i * 2 ^ (length g - 1 - i)]"
    using a by (simp add: bits_to_bytes_short fold_bits)
next
  assume a: "length g = 8 \<and> (\<forall>x\<in>set g. x = 0 \<or> x = 1)"
  then show "bits_to_bytes (g @ rest) = (\<Sum>i<8. g ! i * 2 ^ (7 - i)) # bits_to_bytes rest"
    by (simp add: bits_to_bytes_group fold_bits)
qed

theorem trailing_group_right_aligned_witness:
  "bits_to_bytes ([1, 0, 0, 0, 0, 0, 0, 1] @ [1, 0, 1]) = [129, 5]"
  using trailing_group_right_aligned [of "[1, 0, 0, 0, 0, 0, 0, 1]" "[1, 0, 1]" "[]"]
  by (simp add: lessThan_Suc)

text \<open>The claim as stated fails on the single trailing bit 1: the byte is 1, not
  \<open>1 * 2^7\<close>.\<close>

theorem trailing_group_not_left_aligned:
  "bits_to_bytes [1] = [1] \<and> bits_to_bytes [1] \<noteq> [1 * 2 ^ (7 - 0)]"
  by simp

section \<open>Claims about key generation and encryption\<close>

text \<open>
  \<^bold>\<open>C5.\<close> Whatever the random source delivers, \<open>generateKeys\<close> returns a key pair whose
  secret key has length \<open>N = 128\<close> with entries in \<open>[-3, 3]\<close>, whose \<open>A\<close> is a 256-by-128
  matrix with entries in \<open>[0, Q)\<close>, and whose \<open>b\<close> is \<open>(A sk + e) mod Q\<close> entrywise, with
  entries in \<open>[0, Q)\<close>, for an error vector \<open>e\<close> of length 256 with entries in
  \<open>[-3, 3]\<close>. The returned record has the fields \<open>pk_A\<close>, \<open>pk_b\<close> and \<open>keys_sk\<close> only:
  \<open>e\<close> is not part of it.
\<close>

theorem generated_key_pair_invariant:
  "\<exists>A s e b g'.
     generateKeys g = Inr (\<lparr>keys_pk = \<lparr>pk_A = map (map Num) A, pk_b = map Num b\<rparr>,
                           keys_sk = map Num s\<rparr>, g') \<and>
     N = 128 \<and> M = 256 \<and> Q = 3329 \<and>
     length s = N \<and> (\<forall>x\<in>set s. - 3 \<le> x \<and> x \<le> 3) \<and>
     length A = M \<and> (\<forall>row\<in>set A. length row = N \<and> (\<forall>x\<in>set row. 0 \<le> x \<and> x < Q)) \<and>
     length e = M \<and> (\<forall>x\<in>set e. - 3 \<le> x \<and> x \<le> 3) \<and>
     length b = M \<and> (\<forall>i<M. b ! i = ((\<Sum>j<N. A ! i ! j * s ! j) + e ! i) mod Q) \<and>
     (\<forall>x\<in>set b. 0 \<le> x \<and> x < Q)"
proof -
  obtain A s e b g' where gen:
    "generateKeys g = Inr (\<lparr>keys_pk = \<lparr>pk_A = map (map Num) A, pk_b = map Num b\<rparr>,
                           keys_sk = map Num s\<rparr>, g')"
    and key: "lwe_key A s e b"
    using generateKeys_lwe_key by blast
  have b: "b = map (\<lambda>i. ((\<Sum>j<N. A ! i ! j * s ! j) + e ! i) mod Q) [0..<M]"
    using key by (simp add: lwe_key_def)
  have lb: "length b = M" by (subst b) simp
  have bi: "\<forall>i<M. b ! i = ((\<Sum>j<N. A ! i ! j * s ! j) + e ! i) mod Q"
    by (subst b) simp
  have br: "\<forall>x\<in>set b. 0 \<le> x \<and> x < Q"
  proof
    fix x assume "x \<in> set b"
    then obtain i where "x = ((\<Sum>j<N. A ! i ! j * s ! j) + e ! i) mod Q"
      by (subst (asm) b) auto
    then show "0 \<le> x \<and> x < Q" using Q_pos by simp
  qed
  have c: "N = 128" "M = 256" "Q = 3329" by (simp_all add: N_def M_def Q_def)
  have k: "length s = N" "\<forall>x\<in>set s. - 3 \<le> x \<and> x \<le> 3" "length A = M"
    "\<forall>row\<in>set A. length row = N \<and> (\<forall>x\<in>set row. 0 \<le> x \<and> x < Q)"
    "length e = M" "\<forall>x\<in>set e. - 3 \<le> x \<and> x \<le> 3"
    using key unfolding lwe_key_def by blast+
  show ?thesis
    by (intro exI [of _ A] exI [of _ s] exI [of _ e] exI [of _ b] exI [of _ g'] conjI)
       (fact gen c k lb bi br)+
qed

theorem generated_key_pair_invariant_witness:
  "\<exists>kp g'. generateKeys (sconst 0) = Inr (kp, g') \<and> length (keys_sk kp) = 128 \<and>
     length (pk_A (keys_pk kp)) = 256 \<and> length (pk_b (keys_pk kp)) = 256"
proof -
  obtain A s e b g' where
    "generateKeys (sconst 0) = Inr (\<lparr>keys_pk = \<lparr>pk_A = map (map Num) A, pk_b = map Num b\<rparr>,
                           keys_sk = map Num s\<rparr>, g')"
    "N = 128" "M = 256" "length s = N" "length A = M" "length b = M"
    using generated_key_pair_invariant [of "sconst 0"] by blast
  then show ?thesis by (intro exI conjI) (assumption | simp)+
qed



text \<open>
  \<^bold>\<open>C10.\<close> For a public key with \<open>A\<close> an \<open>M\<close>-by-\<open>N\<close> matrix and \<open>b\<close> of length \<open>M\<close>, entries
  in \<open>[0, Q)\<close>, and every plaintext, \<open>encryptText\<close> returns; each block has \<open>u\<close> of length
  \<open>N = 128\<close> with entries in \<open>[0, Q)\<close> and \<open>v\<close> in \<open>[0, Q)\<close>, and there are eight blocks for
  every byte of the UTF-8 encoding of the plaintext.
\<close>

theorem encryption_output_well_formed:
  "length A = M \<and> (\<forall>row\<in>set A. length row = N \<and> (\<forall>x\<in>set row. 0 \<le> x \<and> x < Q)) \<and>
   length b = M \<and> (\<forall>x\<in>set b. 0 \<le> x \<and> x < Q) \<longrightarrow>
   (\<exists>bs sts g'.
      encryptText \<lparr>pk_A = map (map Num) A, pk_b = map Num b\<rparr> plaintext now g
      = Inr (\<lparr>ciphertext = map of_char (btoa (JSON_stringify
                 \<lparr>blocks = bs, meta = \<lparr>timestamp = now, algorithm = ''LWE-Regev''\<rparr>\<rparr>)),
              stats = sts\<rparr>, g') \<and>
      length bs = 8 * length (TextEncoder_encode plaintext) \<and>
      (\<forall>blk\<in>set bs. \<exists>us x.
         blk_u blk = map Num us \<and> length us = N \<and> N = 128 \<and> (\<forall>y\<in>set us. 0 \<le> y \<and> y < Q) \<and>
         blk_v blk = Num x \<and> 0 \<le> x \<and> x < Q))"
proof
  assume wf: "length A = M \<and> (\<forall>row\<in>set A. length row = N \<and> (\<forall>x\<in>set row. 0 \<le> x \<and> x < Q)) \<and>
   length b = M \<and> (\<forall>x\<in>set b. 0 \<le> x \<and> x < Q)"
  let ?pk = "\<lparr>pk_A = map (map Num) A, pk_b = map Num b\<rparr>"
  let ?bits = "bytes_to_bits (TextEncoder_encode plaintext)"
  have wfA: "length A = M" "\<forall>row\<in>set A. length row = N" and wfb: "length b = M"
    using wf by auto
  have ne: "pk_A ?pk \<noteq> []" using wfA(1) M_pos by auto
  obtain bs rs sts g' where enc:
    "encryptText ?pk plaintext now g
     = Inr (\<lparr>ciphertext = map of_char (btoa (JSON_stringify
                \<lparr>blocks = bs, meta = \<lparr>timestamp = now, algorithm = ''LWE-Regev''\<rparr>\<rparr>)),
             stats = sts\<rparr>, g')"
    and lrs: "length rs = length ?bits"
    and all: "list_all2 (\<lambda>(mbit, r) blk. encrypts ?pk mbit r blk) (zip ?bits rs) bs"
    using encryptText_blocks [OF ne] by blast
  have len: "length bs = 8 * length (TextEncoder_encode plaintext)"
    using list_all2_lengthD [OF all] lrs by (simp add: length_bytes_to_bits)
  have bin: "\<forall>x\<in>set ?bits. x = 0 \<or> x = 1" using bytes_to_bits_binary by blast
  have shape: "\<forall>blk\<in>set bs. \<exists>us x. blk_u blk = map Num us \<and> length us = N \<and> N = 128 \<and>
          (\<forall>y\<in>set us. 0 \<le> y \<and> y < Q) \<and> blk_v blk = Num x \<and> 0 \<le> x \<and> x < Q"
    using encrypted_block_shape [OF wfA wfb all bin] by (intro ballI)
  show "\<exists>bs sts g'.
      encryptText ?pk plaintext now g
      = Inr (\<lparr>ciphertext = map of_char (btoa (JSON_stringify
                 \<lparr>blocks = bs, meta = \<lparr>timestamp = now, algorithm = ''LWE-Regev''\<rparr>\<rparr>)),
              stats = sts\<rparr>, g') \<and>
      length bs = 8 * length (TextEncoder_encode plaintext) \<and>
      (\<forall>blk\<in>set bs. \<exists>us x.
         blk_u blk = map Num us \<and> length us = N \<and> N = 128 \<and> (\<forall>y\<in>set us. 0 \<le> y \<and> y < Q) \<and>
         blk_v blk = Num x \<and> 0 \<le> x \<and> x < Q)"
    by (intro exI [of _ bs] exI [of _ sts] exI [of _ g'] conjI) (fact enc len shape)+
qed

theorem encryption_output_well_formed_witness:
  "\<exists>bs sts g'.
      encryptText \<lparr>pk_A = replicate 256 (replicate 128 (Num 0)), pk_b = replicate 256 (Num 0)\<rparr>
        [0x41] 0 (sconst 0)
      = Inr (\<lparr>ciphertext = map of_char (btoa (JSON_stringify
                 \<lparr>blocks = bs, meta = \<lparr>timestamp = 0, algorithm = ''LWE-Regev''\<rparr>\<rparr>)),
              stats = sts\<rparr>, g') \<and>
      length bs = 8"
proof -
  have "length (replicate 256 (replicate 128 (0::int))) = M \<and>
        (\<forall>row\<in>set (replicate 256 (replicate 128 (0::int))).
           length row = N \<and> (\<forall>x\<in>set row. 0 \<le> x \<and> x < Q)) \<and>
        length (replicate 256 (0::int)) = M \<and> (\<forall>x\<in>set (replicate 256 (0::int)). 0 \<le> x \<and> x < Q)"
    by (simp add: M_def N_def Q_def)
  then obtain bs sts g' where
    "encryptText \<lparr>pk_A = map (map Num) (replicate 256 (replicate 128 0)),
                  pk_b = map Num (replicate 256 0)\<rparr> [0x41] 0 (sconst 0)
      = Inr (\<lparr>ciphertext = map of_char (btoa (JSON_stringify
                 \<lparr>blocks = bs, meta = \<lparr>timestamp = 0, algorithm = ''LWE-Regev''\<rparr>\<rparr>)),
              stats = sts\<rparr>, g')"
    "length bs = 8 * length (TextEncoder_encode [0x41])"
    using encryption_output_well_formed [of "replicate 256 (replicate 128 0)" "replicate 256 0" "[0x41]" 0 "sconst 0"]
    by blast
  moreover have "TextEncoder_encode [0x41] = [0x41]"
    by (simp add: TextEncoder_encode_def encode_code_point_def is_surrogate_def)
  ultimately show ?thesis by (intro exI [of _ bs] exI [of _ sts] exI [of _ g']) simp
qed

end
